theory Spec2Isabelle
  imports Main "HOL-Library.Char_ord" "HOL-Library.List_Lexorder"
begin

section \<open>Strings of the source language\<close>

text \<open>
  The script works on Python \<open>str\<close> values, sequences of code points. A \<^typ>\<open>char\<close> stands
  for one code point in the range U+0000 .. U+00FF (\<^term>\<open>of_char c :: nat\<close> is the code
  point), so a \<^typ>\<open>string\<close> is a Python string over that range. On this range
  \<open>str.strip\<close>, \<open>str.lower\<close> and \<open>str.splitlines\<close> are the functions below: the white space
  of \<open>str.strip()\<close> is U+0009..U+000D, U+001C..U+0020, U+0085 and U+00A0; \<open>str.lower()\<close> maps
  A..Z and U+00C0..U+00DE (U+00D7 apart) to the code point 32 above and leaves every other
  code point alone.
\<close>

definition isspace :: "char \<Rightarrow> bool" where
  "isspace c =
     (let n = (of_char c :: nat)
      in (9 \<le> n \<and> n \<le> 13) \<or> (28 \<le> n \<and> n \<le> 32) \<or> n = 133 \<or> n = 160)"

definition lower_char :: "char \<Rightarrow> char" where
  "lower_char c =
     (let n = (of_char c :: nat)
      in if (65 \<le> n \<and> n \<le> 90) \<or> (192 \<le> n \<and> n \<le> 222 \<and> n \<noteq> 215)
         then char_of (n + 32) else c)"

definition strip :: "string \<Rightarrow> string" where
  "strip s = rev (dropWhile isspace (rev (dropWhile isspace s)))"

definition lower :: "string \<Rightarrow> string" where
  "lower s = map lower_char s"

definition startswith :: "string \<Rightarrow> string \<Rightarrow> bool" where
  "startswith s p = (take (length p) s = p)"

definition endswith :: "string \<Rightarrow> string \<Rightarrow> bool" where
  "endswith s p = (length p \<le> length s \<and> drop (length s - length p) s = p)"

section \<open>The normalizer and the keyword expander\<close>

text \<open>
  \<^verbatim>\<open>
  def normalize(value):
      v = value.strip().lower()
      if v.endswith("."):
          v = v[:-1]
      return v
  \<close>
\<close>

definition normalize_str :: "string \<Rightarrow> string" where
  "normalize_str value =
     (let v = lower (strip value)
      in if endswith v ''.'' then take (length v - 1) v else v)"

text \<open>
  \<^verbatim>\<open>
  def expand_keyword(keyword, tlds):
      normalized = normalize(keyword)
      if not normalized:
          return []
      if "." in normalized:
          return [normalized]
      return [f"{normalized}.{tld}" for tld in tlds]
  \<close>
\<close>

definition expand_keyword :: "string \<Rightarrow> string list \<Rightarrow> string list" where
  "expand_keyword keyword tlds =
     (let normalized = normalize_str keyword
      in if normalized = [] then []
         else if CHR ''.'' \<in> set normalized then [normalized]
         else map (\<lambda>tld. normalized @ ''.'' @ tld) tlds)"

section \<open>The line classifier\<close>

text \<open>
  \<open>line.split(",", 1)\<close> cuts at the first separator only. Its one call is guarded by
  \<open>"," in line\<close>, so the result always has the two parts that the source unpacks.
\<close>

definition split_first :: "string \<Rightarrow> char \<Rightarrow> string \<times> string" where
  "split_first s sep =
     (takeWhile (\<lambda>c. c \<noteq> sep) s, tl (dropWhile (\<lambda>c. c \<noteq> sep) s))"

text \<open>The tag of a classified entry; the source's \<open>None\<close> is \<^term>\<open>None\<close> of the option.\<close>

datatype kind = Domain_entry | Keyword_entry | Unknown_entry | Raw_entry

definition SUPPORTED_PREFIXES :: "string set" where
  "SUPPORTED_PREFIXES = {''DOMAIN'', ''DOMAIN-SUFFIX'', ''DOMAIN-KEYWORD''}"

definition DEFAULT_KEYWORD_TLDS :: "string list" where
  "DEFAULT_KEYWORD_TLDS =
     [''com'', ''net'', ''org'', ''ru'', ''de'', ''nl'', ''uk'', ''co'', ''io'', ''info'',
      ''biz'', ''app'', ''dev'', ''me'', ''tv'', ''eu'', ''us'', ''ca'', ''fr'', ''es'',
      ''it'', ''pl'', ''cz'', ''tr'', ''ua'', ''by'', ''kz'', ''cn'', ''jp'', ''kr'',
      ''in'', ''br'', ''au'', ''sg'']"

text \<open>
  \<^verbatim>\<open>
  def parse_line(raw_line):
      line = raw_line.strip()
      if not line or line.startswith("#") or line.startswith("//"):
          return None
      if "," in line:
          prefix, value = line.split(",", 1)
          prefix = prefix.strip()
          value = value.strip()
          if prefix == "DOMAIN" or prefix == "DOMAIN-SUFFIX":
              return ("domain", value)
          if prefix == "DOMAIN-KEYWORD":
              return ("keyword", value)
          if prefix in SUPPORTED_PREFIXES:
              return ("unknown", line)
          return ("raw", line)
      return ("domain", line)
  \<close>
\<close>

definition parse_line :: "string \<Rightarrow> (kind \<times> string) option" where
  "parse_line raw_line =
     (let line = strip raw_line
      in if line = [] \<or> startswith line ''#'' \<or> startswith line ''//'' then None
         else if CHR '','' \<in> set line then
           (let (prefix0, value0) = split_first line CHR '','';
                prefix = strip prefix0;
                value = strip value0
            in if prefix = ''DOMAIN'' \<or> prefix = ''DOMAIN-SUFFIX'' then Some (Domain_entry, value)
               else if prefix = ''DOMAIN-KEYWORD'' then Some (Keyword_entry, value)
               else if prefix \<in> SUPPORTED_PREFIXES then Some (Unknown_entry, line)
               else Some (Raw_entry, line))
         else Some (Domain_entry, line))"

section \<open>The aggregator\<close>

text \<open>
  The four collections of \<open>main\<close>: two lists that only grow and the two sets that guard
  them.
\<close>

record aggregate =
  domains :: "string list"
  seen :: "string set"
  unsupported :: "string list"
  unsupported_seen :: "string set"

definition empty_aggregate :: aggregate where
  "empty_aggregate = \<lparr>domains = [], seen = {}, unsupported = [], unsupported_seen = {}\<rparr>"

text \<open>
  \<^verbatim>\<open>
  if normalized and normalized not in seen:
      seen.add(normalized)
      domains.append(normalized)
  \<close>
  The same three lines serve a literal domain and each domain of a keyword expansion.
\<close>

definition add_domain :: "string \<Rightarrow> aggregate \<Rightarrow> aggregate" where
  "add_domain d st =
     (if d \<noteq> [] \<and> d \<notin> seen st
      then st\<lparr>seen := insert d (seen st), domains := domains st @ [d]\<rparr>
      else st)"

text \<open>
  \<^verbatim>\<open>
  if normalized and normalized not in unsupported_seen:
      unsupported_seen.add(normalized)
      unsupported.append(normalized)
  \<close>
\<close>

definition add_unsupported :: "string \<Rightarrow> aggregate \<Rightarrow> aggregate" where
  "add_unsupported u st =
     (if u \<noteq> [] \<and> u \<notin> unsupported_seen st
      then st\<lparr>unsupported_seen := insert u (unsupported_seen st),
               unsupported := unsupported st @ [u]\<rparr>
      else st)"

text \<open>
  The body of the inner loop of \<open>main\<close>:
  \<^verbatim>\<open>
  parsed = parse_line(raw_line)
  if parsed is None:
      continue
  kind, value = parsed
  if kind == "domain":
      normalized = normalize(value)
      ...
  elif kind == "keyword":
      for keyword_domain in expand_keyword(value, keyword_tlds):
          ...
  elif kind in ("unknown", "raw"):
      normalized = normalize(value)
      ...
  \<close>
\<close>

definition process_line :: "string list \<Rightarrow> string \<Rightarrow> aggregate \<Rightarrow> aggregate" where
  "process_line tlds raw_line st =
     (case parse_line raw_line of
        None \<Rightarrow> st
      | Some (k, value) \<Rightarrow>
          (case k of
             Domain_entry \<Rightarrow> add_domain (normalize_str value) st
           | Keyword_entry \<Rightarrow> fold add_domain (expand_keyword value tlds) st
           | Unknown_entry \<Rightarrow> add_unsupported (normalize_str value) st
           | Raw_entry \<Rightarrow> add_unsupported (normalize_str value) st))"

definition process_lines :: "string list \<Rightarrow> string list \<Rightarrow> aggregate \<Rightarrow> aggregate" where
  "process_lines tlds lines st = fold (process_line tlds) lines st"

section \<open>Files, arguments and the entry point\<close>

text \<open>
  \<open>str.splitlines()\<close>: a line ends at U+000A, U+000B, U+000C, U+000D, U+001C, U+001D,
  U+001E or U+0085, the pair U+000D U+000A counts as one break, the breaks are dropped, and
  a last line with no break after it is kept when it is not empty.
\<close>

definition islinebreak :: "char \<Rightarrow> bool" where
  "islinebreak c =
     (let n = (of_char c :: nat)
      in (10 \<le> n \<and> n \<le> 13) \<or> (28 \<le> n \<and> n \<le> 30) \<or> n = 133)"

fun splitlines_from :: "string \<Rightarrow> string \<Rightarrow> string list" where
  "splitlines_from cur [] = (if cur = [] then [] else [cur])"
| "splitlines_from cur [c] = (if islinebreak c then [cur] else [cur @ [c]])"
| "splitlines_from cur (c # d # cs) =
     (if c = CHR 0x0D \<and> d = CHR 0x0A then cur # splitlines_from [] cs
      else if islinebreak c then cur # splitlines_from [] (d # cs)
      else splitlines_from (cur @ [c]) (d # cs))"

definition splitlines :: "string \<Rightarrow> string list" where
  "splitlines text = splitlines_from [] text"

text \<open>\<open>s.split(",")\<close>: every separator cuts, empty pieces are kept.\<close>

fun split_from :: "string \<Rightarrow> string \<Rightarrow> char \<Rightarrow> string list" where
  "split_from cur [] sep = [cur]"
| "split_from cur (c # cs) sep =
     (if c = sep then cur # split_from [] cs sep else split_from (cur @ [c]) cs sep)"

definition split_str :: "string \<Rightarrow> char \<Rightarrow> string list" where
  "split_str s sep = split_from [] s sep"

text \<open>
  \<^verbatim>\<open>
  keyword_tlds = [t.strip().lower() for t in args.keyword_tlds.split(",") if t.strip()]
  \<close>
\<close>

definition parse_keyword_tlds :: "string \<Rightarrow> string list" where
  "parse_keyword_tlds s =
     map (\<lambda>t. lower (strip t)) (filter (\<lambda>t. strip t \<noteq> []) (split_str s CHR '',''))"

text \<open>\<open>sep.join(items)\<close>.\<close>

fun join :: "string \<Rightarrow> string list \<Rightarrow> string" where
  "join sep [] = []"
| "join sep [x] = x"
| "join sep (x # y # ys) = x @ sep @ join sep (y # ys)"

text \<open>
  The file system is the script's environment. What the script asks of it is a field of
  \<open>world\<close>: whether a path exists, the names in a directory (none when the path is not a
  directory), the decoded text of a file (\<^term>\<open>None\<close> when \<open>read_text\<close> raises), and whether
  creating the parents of a path and writing a path succeed. What the script does to it
  is a list of effects, in the order they happen. A call that raises ends the run with the
  error, as the uncaught exception does; the messages printed to the error stream are
  left out.
\<close>

record world =
  path_exists :: "string \<Rightarrow> bool"
  listdir :: "string \<Rightarrow> string list"
  read_text :: "string \<Rightarrow> string \<Rightarrow> string option"
  mkdir_ok :: "string \<Rightarrow> bool"
  write_ok :: "string \<Rightarrow> bool"

datatype effect = Mkdir_parents string | Write_text string string

datatype error = Read_error string | Mkdir_error string | Write_error string

text \<open>
  \<^verbatim>\<open>
  def write_list(path, items):
      if path is None:
          return
      path.parent.mkdir(parents=True, exist_ok=True)
      content = "\n".join(items)
      if content:
          content += "\n"
      path.write_text(content, encoding="utf-8")
  \<close>
  The result is the effects carried out and the error raised, if any.
\<close>

definition write_list :: "world \<Rightarrow> string option \<Rightarrow> string list \<Rightarrow> effect list \<times> error option" where
  "write_list w path items =
     (case path of
        None \<Rightarrow> ([], None)
      | Some p \<Rightarrow>
          if \<not> mkdir_ok w p then ([], Some (Mkdir_error p))
          else
            (let content = join [CHR 0x0A] items;
                 content = (if content \<noteq> [] then content @ [CHR 0x0A] else content)
             in if \<not> write_ok w p then ([Mkdir_parents p], Some (Write_error p))
                else ([Mkdir_parents p, Write_text p content], None)))"

text \<open>
  \<open>input_dir.glob("*.list")\<close>: the names of the directory that end in \<open>.list\<close>. The paths
  found share their directory, so \<open>sorted\<close> orders them by name, code point by code point.
\<close>

definition glob_list :: "world \<Rightarrow> string \<Rightarrow> string list" where
  "glob_list w dir = filter (\<lambda>name. endswith name ''.list'') (listdir w dir)"

text \<open>
  The outer loop of \<open>main\<close>:
  \<^verbatim>\<open>
  for path in list_files:
      for raw_line in path.read_text(encoding="utf-8").splitlines():
          ...
  \<close>
\<close>

fun process_files :: "world \<Rightarrow> string \<Rightarrow> string list \<Rightarrow> string list \<Rightarrow> aggregate \<Rightarrow> error + aggregate" where
  "process_files w dir tlds [] st = Inr st"
| "process_files w dir tlds (name # names) st =
     (case read_text w dir name of
        None \<Rightarrow> Inl (Read_error name)
      | Some text \<Rightarrow> process_files w dir tlds names (process_lines tlds (splitlines text) st))"

text \<open>The parsed command line, with the defaults of the argument parser.\<close>

record args =
  input_dir :: string
  output_file :: string
  unsupported_file :: string
  strict :: bool
  keyword_tlds :: string

definition default_args :: args where
  "default_args =
     \<lparr>input_dir = ''litsts'',
      output_file = ''generated/keenetic_dns_routes.txt'',
      unsupported_file = ''generated/keenetic_dns_routes_unsupported.txt'',
      strict = False,
      keyword_tlds = join '','' DEFAULT_KEYWORD_TLDS\<rparr>"

text \<open>
  \<^verbatim>\<open>
  input_dir = Path(args.input_dir)
  if not input_dir.exists():
      return 2
  list_files = sorted(input_dir.glob("*.list"))
  if not list_files:
      return 2
  ...
  write_list(Path(args.output_file), domains)
  unsupported_path = Path(args.unsupported_file) if args.unsupported_file else None
  write_list(unsupported_path, unsupported)
  if unsupported and args.strict:
      return 1
  return 0
  \<close>
  The result is the effects on the file system and either the error that ended the run or
  the exit code returned.
\<close>

definition main :: "world \<Rightarrow> args \<Rightarrow> effect list \<times> (error + int)" where
  "main w a =
     (if \<not> path_exists w (input_dir a) then ([], Inr 2)
      else
        (let list_files = sort (glob_list w (input_dir a))
         in if list_files = [] then ([], Inr 2)
            else
              (let tlds = parse_keyword_tlds (keyword_tlds a)
               in case process_files w (input_dir a) tlds list_files empty_aggregate of
                    Inl e \<Rightarrow> ([], Inl e)
                  | Inr st \<Rightarrow>
                      (case write_list w (Some (output_file a)) (domains st) of
                         (effs1, Some e) \<Rightarrow> (effs1, Inl e)
                       | (effs1, None) \<Rightarrow>
                           (let unsupported_path =
                                  (if unsupported_file a \<noteq> [] then Some (unsupported_file a)
                                   else None)
                            in case write_list w unsupported_path (unsupported st) of
                                 (effs2, Some e) \<Rightarrow> (effs1 @ effs2, Inl e)
                               | (effs2, None) \<Rightarrow>
                                   if unsupported st \<noteq> [] \<and> strict a
                                   then (effs1 @ effs2, Inr 1)
                                   else (effs1 @ effs2, Inr 0))))))"

section \<open>The outputs as the specification words them\<close>

text \<open>
  The definitions of this section are not translations of the script. They restate, in the
  specification's words, what the script is compared with: a sequence with every repeated
  entry dropped after its first occurrence, the domains one line produces, the lines of
  all the input files in reading order, and a file with one entry per line.
\<close>

definition first_occurrences :: "'a list \<Rightarrow> 'a list" where
  "first_occurrences xs = rev (remdups (rev xs))"

definition produced :: "string list \<Rightarrow> string \<Rightarrow> string list" where
  "produced tlds raw_line =
     (case parse_line raw_line of
        Some (Domain_entry, value) \<Rightarrow> [normalize_str value]
      | Some (Keyword_entry, value) \<Rightarrow> expand_keyword value tlds
      | _ \<Rightarrow> [])"

definition all_lines :: "world \<Rightarrow> string \<Rightarrow> string list \<Rightarrow> string list" where
  "all_lines w dir names =
     concat (map (\<lambda>name. case read_text w dir name of
                            Some text \<Rightarrow> splitlines text
                          | None \<Rightarrow> []) names)"

definition one_per_line :: "string list \<Rightarrow> string" where
  "one_per_line items = concat (map (\<lambda>item. item @ [CHR 0x0A]) items)"

text \<open>
  A file system for the examples: one directory \<open>dir\<close> holding the files \<open>files\<close> (name and
  text), in which every write succeeds.
\<close>

definition world_with :: "string \<Rightarrow> (string \<times> string) list \<Rightarrow> world" where
  "world_with dir files =
     \<lparr>path_exists = (\<lambda>p. p = dir),
      listdir = (\<lambda>d. if d = dir then map fst files else []),
      read_text = (\<lambda>d name. if d = dir then map_of files name else None),
      mkdir_ok = (\<lambda>p. True),
      write_ok = (\<lambda>p. True)\<rparr>"

text \<open>
  Scenario A of the specification: one input file with five lines, and the TLD list
  \<open>com\<close>, \<open>net\<close> given on the command line.
\<close>

definition scenario_A_lines :: "string list" where
  "scenario_A_lines =
     [''example.com'', ''DOMAIN-SUFFIX,EXAMPLE.ORG.'', ''DOMAIN-KEYWORD,test'',
      ''DOMAIN-MATCH,foo.com'', ''# comment'']"

definition scenario_A_world :: world where
  "scenario_A_world = world_with ''litsts'' [(''rules.list'', one_per_line scenario_A_lines)]"

definition scenario_A_args :: args where
  "scenario_A_args = default_args\<lparr>keyword_tlds := ''com,net''\<rparr>"

text \<open>
  A run in strict mode over one file with an unsupported line and a bare domain, and the
  same run with the unsupported-entries file suppressed.
\<close>

definition strict_run_world :: world where
  "strict_run_world =
     world_with ''litsts'' [(''a.list'', one_per_line [''DOMAIN-MATCH,foo.com'', ''Example.com''])]"

definition strict_run_args :: args where
  "strict_run_args =
     \<lparr>input_dir = ''litsts'', output_file = ''out.txt'', unsupported_file = ''unsupported.txt'',
      strict = True, keyword_tlds = ''com''\<rparr>"

definition suppressed_run_args :: args where
  "suppressed_run_args = strict_run_args\<lparr>unsupported_file := []\<rparr>"

section \<open>Facts about the string functions\<close>

lemma of_char_lt_256: "(of_char c :: nat) < 256"
  by (cases c) simp
lemma lower_char_code: "(of_char (lower_char c) :: nat) =
   (let n = of_char c in if (65 \<le> n \<and> n \<le> 90) \<or> (192 \<le> n \<and> n \<le> 222 \<and> n \<noteq> 215) then n + 32 else n)"
  using of_char_lt_256 [of c] by (auto simp: lower_char_def Let_def)

lemma lower_char_idem: "lower_char (lower_char c) = lower_char c"
proof -
  have "(of_char (lower_char (lower_char c)) :: nat) = of_char (lower_char c)"
    by (auto simp add: lower_char_code Let_def)
  then show ?thesis by simp
qed

lemma isspace_lower_char: "isspace (lower_char c) = isspace c"
  by (auto simp add: isspace_def lower_char_code Let_def)

lemma lower_char_eq_dot: "lower_char c = CHR ''.'' \<longleftrightarrow> c = CHR ''.''"
proof -
  have "lower_char c = CHR ''.'' \<longleftrightarrow> (of_char (lower_char c) :: nat) = of_char CHR ''.''"
    by (simp only: of_char_eq_iff)
  also have "\<dots> \<longleftrightarrow> (of_char c :: nat) = of_char CHR ''.''"
    by (auto simp add: lower_char_code Let_def)
  also have "\<dots> \<longleftrightarrow> c = CHR ''.''"
    by (simp only: of_char_eq_iff)
  finally show ?thesis .
qed

lemma not_isspace_dot: "\<not> isspace CHR ''.''"
  by (simp add: isspace_def)

lemma rstrip_prefix: "rev (dropWhile P (rev t)) @ rev (takeWhile P (rev t)) = t"
proof -
  have "rev (takeWhile P (rev t) @ dropWhile P (rev t)) = t" by simp
  then show ?thesis by (simp only: rev_append)
qed

lemma rstrip_id: "t \<noteq> [] \<Longrightarrow> \<not> P (last t) \<Longrightarrow> rev (dropWhile P (rev t)) = t"
  by (cases t rule: rev_cases) simp_all

lemma rstrip_last: "rev (dropWhile P (rev t)) \<noteq> [] \<Longrightarrow> \<not> P (last (rev (dropWhile P (rev t))))"
  by (simp add: last_rev hd_dropWhile)

lemma rstrip_hd: "rev (dropWhile P (rev t)) \<noteq> [] \<Longrightarrow> hd (rev (dropWhile P (rev t))) = hd t"
  using rstrip_prefix [of P t] by (metis hd_append2)

lemma strip_Nil: "strip [] = []"
  by (simp add: strip_def)

lemma strip_id: "s \<noteq> [] \<Longrightarrow> \<not> isspace (hd s) \<Longrightarrow> \<not> isspace (last s) \<Longrightarrow> strip s = s"
proof -
  assume a: "s \<noteq> []" "\<not> isspace (hd s)" "\<not> isspace (last s)"
  then have "dropWhile isspace s = s" by (cases s) simp_all
  with a show ?thesis by (simp add: strip_def rstrip_id)
qed

lemma strip_last: "strip s \<noteq> [] \<Longrightarrow> \<not> isspace (last (strip s))"
  unfolding strip_def by (rule rstrip_last)

lemma strip_hd: assumes "strip s \<noteq> []" shows "\<not> isspace (hd (strip s))"
proof -
  let ?t = "dropWhile isspace s"
  have "?t = [] \<Longrightarrow> strip s = []"
    unfolding strip_def by (simp del: dropWhile_eq_Nil_conv)
  with assms have t: "?t \<noteq> []" by blast
  from assms have "hd (strip s) = hd ?t" unfolding strip_def by (rule rstrip_hd)
  with t show ?thesis by (simp add: hd_dropWhile)
qed

lemma length_strip_le: "length (strip s) \<le> length s"
proof -
  have "length (strip s) \<le> length (dropWhile isspace s)"
    using length_dropWhile_le [of isspace "rev (dropWhile isspace s)"] by (simp add: strip_def)
  also have "\<dots> \<le> length s" by (rule length_dropWhile_le)
  finally show ?thesis .
qed

lemma length_strip_less: assumes "s \<noteq> []" "isspace (last s)" shows "length (strip s) < length s"
proof (cases "dropWhile isspace s = []")
  case True
  then have "strip s = []"
    unfolding strip_def by (simp del: dropWhile_eq_Nil_conv)
  with assms show ?thesis by simp
next
  case False
  let ?t = "dropWhile isspace s"
  have "last ?t = last s" using False
    by (metis takeWhile_dropWhile_id last_appendR)
  with assms False obtain ys y where t: "?t = ys @ [y]" and y: "isspace y"
    by (cases ?t rule: rev_cases) auto
  have "length (dropWhile isspace (rev ys)) \<le> length (rev ys)"
    by (rule length_dropWhile_le)
  with t y have "length (dropWhile isspace (rev ?t)) < length (rev ?t)"
    by simp
  then have "length (strip s) < length ?t" by (simp add: strip_def)
  also have "\<dots> \<le> length s" by (rule length_dropWhile_le)
  finally show ?thesis .
qed

lemma set_strip_subset: "set (strip s) \<subseteq> set s"
proof -
  have "set (strip s) \<subseteq> set (dropWhile isspace s)"
    unfolding strip_def set_rev using set_dropWhileD by fastforce
  also have "\<dots> \<subseteq> set s" using set_dropWhileD by fastforce
  finally show ?thesis .
qed

lemma endswith_dot: "endswith v ''.'' \<longleftrightarrow> v \<noteq> [] \<and> last v = CHR ''.''"
proof (cases v rule: rev_cases)
  case Nil
  then show ?thesis by (simp add: endswith_def)
next
  case (snoc ys y)
  then show ?thesis by (simp add: endswith_def)
qed

lemma take_minus_one: "take (length v - Suc 0) v = butlast v"
  by (simp add: butlast_conv_take)

lemma butlast_neq: "xs \<noteq> [] \<Longrightarrow> butlast xs \<noteq> xs"
  by (cases xs rule: rev_cases) simp_all

lemma lower_idem: "lower (lower s) = lower s"
  by (simp add: lower_def lower_char_idem)

lemma lower_eq_Nil: "lower s = [] \<longleftrightarrow> s = []"
  by (simp add: lower_def)

lemma length_lower: "length (lower s) = length s"
  by (simp add: lower_def)

lemma hd_lower: "s \<noteq> [] \<Longrightarrow> hd (lower s) = lower_char (hd s)"
  by (simp add: lower_def hd_map)

lemma last_lower: "s \<noteq> [] \<Longrightarrow> last (lower s) = lower_char (last s)"
  by (simp add: lower_def last_map)

lemma butlast_lower: "butlast (lower s) = lower (butlast s)"
  by (simp add: lower_def map_butlast)

lemma dot_in_lower: "CHR ''.'' \<in> set (lower s) \<longleftrightarrow> CHR ''.'' \<in> set s"
proof (induction s)
  case Nil
  then show ?case by (simp add: lower_def)
next
  case (Cons c cs)
  have "CHR ''.'' = lower_char c \<longleftrightarrow> CHR ''.'' = c"
    using lower_char_eq_dot [of c] by auto
  with Cons show ?case by (simp add: lower_def)
qed

lemma normalize_str_alt:
  "normalize_str s =
     (let v = lower (strip s) in if v \<noteq> [] \<and> last v = CHR ''.'' then butlast v else v)"
  by (simp add: normalize_str_def endswith_dot take_minus_one Let_def)

lemma normalize_str_Nil: "normalize_str [] = []"
  by (simp add: normalize_str_alt strip_Nil lower_def)

lemma lower_normalize_str: "lower (normalize_str s) = normalize_str s"
  by (simp add: normalize_str_alt Let_def lower_idem butlast_lower [symmetric])

lemma length_normalize_str_le: "length (normalize_str s) \<le> length (strip s)"
  by (simp add: normalize_str_alt Let_def length_lower)

lemma hd_normalize_str: 
  assumes "normalize_str s \<noteq> []" shows "\<not> isspace (hd (normalize_str s))"
proof -
  let ?v = "lower (strip s)"
  from assms have v: "strip s \<noteq> []"
    by (auto simp add: normalize_str_alt Let_def lower_def split: if_splits)
  then have "\<not> isspace (hd ?v)"
    by (simp add: hd_lower isspace_lower_char strip_hd)
  moreover have "hd (normalize_str s) = hd ?v"
  proof (cases "?v \<noteq> [] \<and> last ?v = CHR ''.''")
    case True
    with assms have "butlast ?v \<noteq> []" by (simp add: normalize_str_alt Let_def)
    then have "hd (butlast ?v) = hd ?v"
      by (metis append_butlast_last_id hd_append2 butlast.simps(1))
    with True show ?thesis by (simp add: normalize_str_alt Let_def)
  next
    case False
    then show ?thesis by (auto simp add: normalize_str_alt Let_def)
  qed
  ultimately show ?thesis by simp
qed

lemma normalize_str_fixed:
  assumes "n \<noteq> []" "\<not> isspace (hd n)" "\<not> isspace (last n)" "last n \<noteq> CHR ''.''" "lower n = n"
  shows "normalize_str n = n"
  using assms by (simp add: normalize_str_alt strip_id Let_def)

lemma dot_in_normalize_str: "CHR ''.'' \<in> set (normalize_str s) \<Longrightarrow> CHR ''.'' \<in> set s"
proof -
  assume a: "CHR ''.'' \<in> set (normalize_str s)"
  have "set (normalize_str s) \<subseteq> set (lower (strip s))"
    by (auto simp add: normalize_str_alt Let_def dest: in_set_butlastD)
  with a have "CHR ''.'' \<in> set (strip s)" by (auto simp add: dot_in_lower)
  with set_strip_subset show ?thesis by blast
qed

section \<open>Facts about the classifier\<close>

lemma strip_strip: "strip (strip s) = strip s"
proof (cases "strip s = []")
  case True
  then show ?thesis by (simp add: strip_Nil)
next
  case False
  then show ?thesis by (simp add: strip_id strip_hd strip_last)
qed

lemma strip_keeps_hd:
  assumes "s \<noteq> []" "\<not> isspace (hd s)"
  shows "strip s \<noteq> [] \<and> hd (strip s) = hd s"
proof -
  from assms have d: "dropWhile isspace s = s" by (cases s) simp_all
  from assms obtain c cs where s: "s = c # cs" and c: "\<not> isspace c" by (cases s) auto
  have "dropWhile isspace (rev cs @ [c]) \<noteq> []"
    using c by (simp add: dropWhile_append)
  with s d have ne: "strip s \<noteq> []" by (simp add: strip_def)
  then have "hd (strip s) = hd (dropWhile isspace s)"
    unfolding strip_def by (rule rstrip_hd)
  with d ne show ?thesis by simp
qed

lemma startswith_hash: "startswith s ''#'' \<longleftrightarrow> s \<noteq> [] \<and> hd s = CHR ''#''"
  by (cases s) (auto simp add: startswith_def)

lemma startswith_slashes: "startswith s ''//'' \<Longrightarrow> s \<noteq> [] \<and> hd s = CHR ''/''"
  by (cases s) (auto simp add: startswith_def)

lemma split_first_at:
  assumes "s = pre @ sep # rest" "sep \<notin> set pre"
  shows "split_first s sep = (pre, rest)"
proof -
  from assms(2) have a: "\<forall>x\<in>set pre. x \<noteq> sep" by auto
  then have "takeWhile (\<lambda>c. c \<noteq> sep) (pre @ sep # rest) = pre"
    by (simp add: takeWhile_append2)
  moreover from a have "dropWhile (\<lambda>c. c \<noteq> sep) (pre @ sep # rest) = sep # rest"
    by (simp add: dropWhile_append2)
  ultimately show ?thesis using assms(1) by (simp add: split_first_def)
qed

lemma parse_line_skip:
  "strip raw = [] \<or> startswith (strip raw) ''#'' \<or> startswith (strip raw) ''//''
   \<Longrightarrow> parse_line raw = None"
  by (simp add: parse_line_def)

lemma parse_line_bare:
  assumes "\<not> (strip raw = [] \<or> startswith (strip raw) ''#'' \<or> startswith (strip raw) ''//'')"
    and "CHR '','' \<notin> set (strip raw)"
  shows "parse_line raw = Some (Domain_entry, strip raw)"
  using assms by (simp add: parse_line_def)

lemma parse_line_comma:
  assumes "\<not> (strip raw = [] \<or> startswith (strip raw) ''#'' \<or> startswith (strip raw) ''//'')"
    and "strip raw = pre @ CHR '','' # rest" and "CHR '','' \<notin> set pre"
  shows "parse_line raw =
     (if strip pre = ''DOMAIN'' \<or> strip pre = ''DOMAIN-SUFFIX'' then Some (Domain_entry, strip rest)
      else if strip pre = ''DOMAIN-KEYWORD'' then Some (Keyword_entry, strip rest)
      else Some (Raw_entry, strip raw))"
proof -
  from assms(2,3) have sp: "split_first (strip raw) CHR '','' = (pre, rest)"
    by (rule split_first_at)
  from assms(2) have c: "CHR '','' \<in> set (strip raw)" by simp
  show ?thesis
    using assms(1) c sp
    by (simp add: parse_line_def Let_def SUPPORTED_PREFIXES_def)
qed

lemma parse_line_not_unknown: "parse_line raw \<noteq> Some (Unknown_entry, v)"
  by (auto simp add: parse_line_def Let_def SUPPORTED_PREFIXES_def split: prod.splits)

section \<open>Facts about the supported prefixes and the unsupported list\<close>

lemma supported_length: "q \<in> SUPPORTED_PREFIXES \<Longrightarrow> 6 \<le> length q"
  by (auto simp add: SUPPORTED_PREFIXES_def)

lemma supported_hd: "q \<in> SUPPORTED_PREFIXES \<Longrightarrow> q \<noteq> [] \<and> hd q = CHR ''D''"
  by (auto simp add: SUPPORTED_PREFIXES_def)

lemma supported_same_length:
  "p \<in> SUPPORTED_PREFIXES \<Longrightarrow> q \<in> SUPPORTED_PREFIXES \<Longrightarrow> length p = length q \<Longrightarrow> p = q"
  by (auto simp add: SUPPORTED_PREFIXES_def)

lemma lower_char_D_not_comment:
  "lower_char c = lower_char CHR ''D'' \<Longrightarrow> c \<noteq> CHR ''#'' \<and> c \<noteq> CHR ''/''"
proof -
  have "lower_char CHR ''#'' \<noteq> lower_char CHR ''D''" by code_simp
  moreover have "lower_char CHR ''/'' \<noteq> lower_char CHR ''D''" by code_simp
  moreover assume "lower_char c = lower_char CHR ''D''"
  ultimately show ?thesis by auto
qed

lemma length_normalize_str_ge: "length (strip s) - 1 \<le> length (normalize_str s)"
  by (simp add: normalize_str_alt Let_def length_lower)

lemma add_domain_unsupported:
  "unsupported (add_domain d st) = unsupported st
   \<and> unsupported_seen (add_domain d st) = unsupported_seen st"
  by (simp add: add_domain_def)

lemma fold_add_domain_unsupported:
  "unsupported (fold add_domain ds st) = unsupported st
   \<and> unsupported_seen (fold add_domain ds st) = unsupported_seen st"
  by (induction ds arbitrary: st) (simp_all add: add_domain_unsupported)

lemma add_unsupported_domains:
  "domains (add_unsupported u st) = domains st \<and> seen (add_unsupported u st) = seen st"
  by (simp add: add_unsupported_def)

lemma add_unsupported_inv:
  "unsupported_seen st = set (unsupported st) \<Longrightarrow>
   unsupported_seen (add_unsupported u st) = set (unsupported (add_unsupported u st))"
  by (simp add: add_unsupported_def)

lemma add_unsupported_mono:
  "set (unsupported st) \<subseteq> set (unsupported (add_unsupported u st))"
  by (auto simp add: add_unsupported_def)

lemma add_unsupported_member:
  "u \<noteq> [] \<Longrightarrow> unsupported_seen st = set (unsupported st) \<Longrightarrow>
   u \<in> set (unsupported (add_unsupported u st))"
  by (auto simp add: add_unsupported_def)

lemma process_line_unsupported_inv:
  "unsupported_seen st = set (unsupported st) \<Longrightarrow>
   unsupported_seen (process_line tlds l st) = set (unsupported (process_line tlds l st))"
  by (auto simp add: process_line_def add_domain_unsupported fold_add_domain_unsupported
      add_unsupported_inv split: option.splits kind.splits)

lemma process_line_unsupported_mono:
  "set (unsupported st) \<subseteq> set (unsupported (process_line tlds l st))"
  using add_unsupported_mono
  by (auto simp add: process_line_def add_domain_unsupported fold_add_domain_unsupported
      split: option.splits kind.splits)

lemma process_lines_unsupported_mono:
  "set (unsupported st) \<subseteq> set (unsupported (process_lines tlds ls st))"
proof (induction ls arbitrary: st)
  case Nil
  then show ?case by (simp add: process_lines_def)
next
  case (Cons l ls)
  have "set (unsupported st) \<subseteq> set (unsupported (process_line tlds l st))"
    by (rule process_line_unsupported_mono)
  also have "\<dots> \<subseteq> set (unsupported (process_lines tlds ls (process_line tlds l st)))"
    by (rule Cons.IH)
  finally show ?case by (simp add: process_lines_def)
qed

lemma process_lines_unsupported_member:
  assumes "unsupported_seen st = set (unsupported st)" "l \<in> set ls"
    "parse_line l = Some (Raw_entry, v)" "normalize_str v \<noteq> []"
  shows "normalize_str v \<in> set (unsupported (process_lines tlds ls st))"
  using assms(1,2)
proof (induction ls arbitrary: st)
  case Nil
  then show ?case by simp
next
  case (Cons x xs)
  let ?st = "process_line tlds x st"
  have inv: "unsupported_seen ?st = set (unsupported ?st)"
    using Cons.prems(1) by (rule process_line_unsupported_inv)
  have step: "process_lines tlds (x # xs) st = process_lines tlds xs ?st"
    by (simp add: process_lines_def)
  show ?case
  proof (cases "l = x")
    case True
    with assms(3) have "?st = add_unsupported (normalize_str v) st"
      by (simp add: process_line_def)
    with assms(4) Cons.prems(1) have "normalize_str v \<in> set (unsupported ?st)"
      by (simp add: add_unsupported_member)
    with process_lines_unsupported_mono [of ?st tlds xs] step show ?thesis by auto
  next
    case False
    with Cons.prems(2) have "l \<in> set xs" by simp
    with inv have "normalize_str v \<in> set (unsupported (process_lines tlds xs ?st))"
      by (rule Cons.IH)
    with step show ?thesis by simp
  qed
qed

section \<open>Facts about the TLD list\<close>

lemma strip_all_space:
  assumes "\<forall>c\<in>set t. isspace c" shows "strip t = []"
proof -
  from assms have "dropWhile isspace t = []" by (simp only: dropWhile_eq_Nil_conv)
  then show ?thesis by (simp add: strip_def del: dropWhile_eq_Nil_conv)
qed

lemma split_from_pieces:
  "t \<in> set (split_from cur s sep) \<Longrightarrow> set t \<subseteq> set cur \<union> (set s - {sep})"
proof (induction s arbitrary: cur)
  case Nil
  then show ?case by simp
next
  case (Cons c cs)
  show ?case
  proof (cases "c = sep")
    case True
    with Cons.prems have "t = cur \<or> t \<in> set (split_from [] cs sep)" by simp
    then show ?thesis
    proof
      assume "t = cur" then show ?thesis by auto
    next
      assume "t \<in> set (split_from [] cs sep)"
      then have "set t \<subseteq> set [] \<union> (set cs - {sep})" by (rule Cons.IH)
      then show ?thesis by auto
    qed
  next
    case False
    with Cons.prems have "t \<in> set (split_from (cur @ [c]) cs sep)" by simp
    then have "set t \<subseteq> set (cur @ [c]) \<union> (set cs - {sep})" by (rule Cons.IH)
    with False show ?thesis by auto
  qed
qed

lemma parse_keyword_tlds_blank:
  assumes "\<forall>c\<in>set s. c = CHR '','' \<or> isspace c"
  shows "parse_keyword_tlds s = []"
proof -
  have "strip t = []" if "t \<in> set (split_str s CHR '','')" for t
  proof -
    from that have "set t \<subseteq> set [] \<union> (set s - {CHR '',''})"
      unfolding split_str_def by (rule split_from_pieces)
    with assms have "\<forall>c\<in>set t. isspace c" by auto
    then show ?thesis by (rule strip_all_space)
  qed
  then have "filter (\<lambda>t. strip t \<noteq> []) (split_str s CHR '','') = []"
    by (simp add: filter_empty_conv)
  then show ?thesis by (simp add: parse_keyword_tlds_def)
qed

lemma expand_keyword_no_tlds:
  "CHR ''.'' \<notin> set (normalize_str k) \<Longrightarrow> expand_keyword k [] = []"
  by (simp add: expand_keyword_def Let_def)

section \<open>Facts about the domains list\<close>

lemma first_occurrences_Nil: "first_occurrences [] = []"
  by (simp add: first_occurrences_def)

lemma first_occurrences_snoc:
  "first_occurrences (xs @ [x]) =
     (if x \<in> set xs then first_occurrences xs else first_occurrences xs @ [x])"
  by (simp add: first_occurrences_def)

lemma set_first_occurrences: "set (first_occurrences xs) = set xs"
  by (simp add: first_occurrences_def)

lemma distinct_first_occurrences: "distinct (first_occurrences xs)"
  by (simp add: first_occurrences_def)

lemma add_domain_stream:
  assumes "domains st = first_occurrences (filter (\<lambda>d. d \<noteq> []) cs)"
    and "seen st = set (domains st)"
  shows "domains (add_domain d st) = first_occurrences (filter (\<lambda>d. d \<noteq> []) (cs @ [d]))
       \<and> seen (add_domain d st) = set (domains (add_domain d st))"
  using assms
  by (auto simp add: add_domain_def first_occurrences_snoc set_first_occurrences)

lemma fold_add_domain_stream:
  assumes "domains st = first_occurrences (filter (\<lambda>d. d \<noteq> []) cs)"
    and "seen st = set (domains st)"
  shows "domains (fold add_domain ds st) = first_occurrences (filter (\<lambda>d. d \<noteq> []) (cs @ ds))
       \<and> seen (fold add_domain ds st) = set (domains (fold add_domain ds st))"
  using assms
proof (induction ds arbitrary: st cs)
  case Nil
  then show ?case by simp
next
  case (Cons d ds)
  from add_domain_stream [OF Cons.prems]
  have a: "domains (add_domain d st) = first_occurrences (filter (\<lambda>d. d \<noteq> []) (cs @ [d]))"
    and b: "seen (add_domain d st) = set (domains (add_domain d st))" by simp_all
  from Cons.IH [OF a b] show ?case by simp
qed

lemma process_line_stream:
  assumes "domains st = first_occurrences (filter (\<lambda>d. d \<noteq> []) cs)"
    and "seen st = set (domains st)"
  shows "domains (process_line tlds l st)
           = first_occurrences (filter (\<lambda>d. d \<noteq> []) (cs @ produced tlds l))
       \<and> seen (process_line tlds l st) = set (domains (process_line tlds l st))"
proof (cases "parse_line l")
  case None
  with assms show ?thesis by (simp add: process_line_def produced_def)
next
  case (Some kv)
  obtain k v where kv: "kv = (k, v)" by (cases kv)
  show ?thesis
  proof (cases k)
    case Domain_entry
    with Some kv add_domain_stream [OF assms, of "normalize_str v"] show ?thesis
      by (simp add: process_line_def produced_def)
  next
    case Keyword_entry
    with Some kv fold_add_domain_stream [OF assms, of "expand_keyword v tlds"] show ?thesis
      by (simp add: process_line_def produced_def)
  next
    case Unknown_entry
    with Some kv assms show ?thesis
      by (simp add: process_line_def produced_def add_unsupported_domains)
  next
    case Raw_entry
    with Some kv assms show ?thesis
      by (simp add: process_line_def produced_def add_unsupported_domains)
  qed
qed

lemma process_lines_stream:
  assumes "domains st = first_occurrences (filter (\<lambda>d. d \<noteq> []) cs)"
    and "seen st = set (domains st)"
  shows "domains (process_lines tlds ls st)
           = first_occurrences (filter (\<lambda>d. d \<noteq> []) (cs @ concat (map (produced tlds) ls)))
       \<and> seen (process_lines tlds ls st) = set (domains (process_lines tlds ls st))"
  using assms
proof (induction ls arbitrary: st cs)
  case Nil
  then show ?case by (simp add: process_lines_def)
next
  case (Cons l ls)
  from process_line_stream [OF Cons.prems, of tlds l]
  have a: "domains (process_line tlds l st)
      = first_occurrences (filter (\<lambda>d. d \<noteq> []) (cs @ produced tlds l))"
    and b: "seen (process_line tlds l st) = set (domains (process_line tlds l st))"
    by simp_all
  from Cons.IH [OF a b] show ?case by (simp add: process_lines_def)
qed

section \<open>Facts about the writer\<close>

lemma join_eq_Nil: "sep \<noteq> [] \<Longrightarrow> join sep items = [] \<longleftrightarrow> items = [] \<or> items = [[]]"
  by (induction sep items rule: join.induct) simp_all

lemma join_one_per_line:
  "items \<noteq> [] \<Longrightarrow> join [CHR 0x0A] items @ [CHR 0x0A] = one_per_line items"
  by (induction "[CHR 0x0A]" items rule: join.induct) (simp_all add: one_per_line_def)

lemma write_list_ok:
  assumes "mkdir_ok w p" "write_ok w p"
  shows "write_list w (Some p) items =
     ([Mkdir_parents p,
       Write_text p (if items = [] \<or> items = [[]] then [] else join [CHR 0x0A] items @ [CHR 0x0A])],
      None)"
  using assms by (simp add: write_list_def Let_def join_eq_Nil)

section \<open>Facts about the entry point\<close>

lemma process_lines_append:
  "process_lines tlds (xs @ ys) st = process_lines tlds ys (process_lines tlds xs st)"
  by (simp add: process_lines_def)

lemma process_files_ok:
  assumes "\<forall>name\<in>set names. read_text w dir name \<noteq> None"
  shows "process_files w dir tlds names st
           = Inr (process_lines tlds (all_lines w dir names) st)"
  using assms
proof (induction names arbitrary: st)
  case Nil
  then show ?case by (simp add: all_lines_def process_lines_def)
next
  case (Cons name names)
  from Cons.prems obtain content where t: "read_text w dir name = Some content" by auto
  from Cons.prems have "\<forall>n\<in>set names. read_text w dir n \<noteq> None" by simp
  then have "process_files w dir tlds names (process_lines tlds (splitlines content) st)
      = Inr (process_lines tlds (all_lines w dir names)
               (process_lines tlds (splitlines content) st))"
    by (rule Cons.IH)
  moreover have "all_lines w dir (name # names) = splitlines content @ all_lines w dir names"
    using t by (simp add: all_lines_def)
  ultimately show ?case using t by (simp add: process_lines_append)
qed

lemma process_lines_domains_nonempty:
  "[] \<notin> set (domains (process_lines tlds ls empty_aggregate))"
proof -
  have a: "domains empty_aggregate = first_occurrences (filter (\<lambda>d. d \<noteq> []) [])"
    by (simp add: empty_aggregate_def first_occurrences_Nil)
  have b: "seen empty_aggregate = set (domains empty_aggregate)"
    by (simp add: empty_aggregate_def)
  from process_lines_stream [OF a b, of tlds ls] show ?thesis
    by (simp add: set_first_occurrences)
qed

lemma add_unsupported_nonempty:
  "[] \<notin> set (unsupported st) \<Longrightarrow> [] \<notin> set (unsupported (add_unsupported u st))"
  by (auto simp add: add_unsupported_def)

lemma process_line_unsupported_nonempty:
  "[] \<notin> set (unsupported st) \<Longrightarrow> [] \<notin> set (unsupported (process_line tlds l st))"
  by (auto simp add: process_line_def add_domain_unsupported fold_add_domain_unsupported
      add_unsupported_nonempty split: option.splits kind.splits)

lemma process_lines_unsupported_nonempty:
  "[] \<notin> set (unsupported st) \<Longrightarrow> [] \<notin> set (unsupported (process_lines tlds ls st))"
proof (induction ls arbitrary: st)
  case Nil
  then show ?case by (simp add: process_lines_def)
next
  case (Cons l ls)
  from Cons.prems have "[] \<notin> set (unsupported (process_line tlds l st))"
    by (rule process_line_unsupported_nonempty)
  then have "[] \<notin> set (unsupported (process_lines tlds ls (process_line tlds l st)))"
    by (rule Cons.IH)
  then show ?case by (simp add: process_lines_def)
qed

lemma write_list_lines:
  assumes "mkdir_ok w p" "write_ok w p" "[] \<notin> set items"
  shows "write_list w (Some p) items = ([Mkdir_parents p, Write_text p (one_per_line items)], None)"
proof (cases "items = []")
  case True
  with assms show ?thesis by (simp add: write_list_ok one_per_line_def)
next
  case False
  moreover from assms(3) have "items \<noteq> [[]]" by auto
  ultimately show ?thesis using assms(1,2)
    by (simp add: write_list_ok join_one_per_line)
qed

lemma main_no_input:
  "\<not> path_exists w (input_dir a) \<or> glob_list w (input_dir a) = [] \<Longrightarrow> main w a = ([], Inr 2)"
  by (auto simp add: main_def Let_def)

lemma main_run:
  assumes ex: "path_exists w (input_dir a)" and files: "glob_list w (input_dir a) \<noteq> []"
    and reads: "\<forall>name\<in>set (glob_list w (input_dir a)). read_text w (input_dir a) name \<noteq> None"
    and out: "mkdir_ok w (output_file a) \<and> write_ok w (output_file a)"
    and uns: "unsupported_file a \<noteq> [] \<longrightarrow>
               mkdir_ok w (unsupported_file a) \<and> write_ok w (unsupported_file a)"
    and st: "st = process_lines (parse_keyword_tlds (keyword_tlds a))
                    (all_lines w (input_dir a) (sort (glob_list w (input_dir a)))) empty_aggregate"
  shows "main w a =
     ([Mkdir_parents (output_file a), Write_text (output_file a) (one_per_line (domains st))]
        @ (if unsupported_file a = [] then []
           else [Mkdir_parents (unsupported_file a),
                 Write_text (unsupported_file a) (one_per_line (unsupported st))]),
      Inr (if unsupported st \<noteq> [] \<and> strict a then 1 else 0))"
proof -
  let ?dir = "input_dir a"
  let ?files = "sort (glob_list w ?dir)"
  let ?tlds = "parse_keyword_tlds (keyword_tlds a)"
  from files have ne: "?files \<noteq> []"
    by (metis set_sort set_empty)
  from reads have "\<forall>name\<in>set ?files. read_text w ?dir name \<noteq> None" by simp
  then have pf: "process_files w ?dir ?tlds ?files empty_aggregate = Inr st"
    unfolding st by (rule process_files_ok)
  have d: "[] \<notin> set (domains st)" unfolding st by (rule process_lines_domains_nonempty)
  have "[] \<notin> set (unsupported empty_aggregate)" by (simp add: empty_aggregate_def)
  then have u: "[] \<notin> set (unsupported st)"
    unfolding st by (rule process_lines_unsupported_nonempty)
  from out d have w1: "write_list w (Some (output_file a)) (domains st)
      = ([Mkdir_parents (output_file a), Write_text (output_file a) (one_per_line (domains st))], None)"
    by (simp add: write_list_lines)
  show ?thesis
  proof (cases "unsupported_file a = []")
    case True
    have "write_list w None (unsupported st) = ([], None)" by (simp add: write_list_def)
    with True ex ne pf w1 show ?thesis by (simp add: main_def Let_def)
  next
    case False
    with uns u have "write_list w (Some (unsupported_file a)) (unsupported st)
      = ([Mkdir_parents (unsupported_file a),
          Write_text (unsupported_file a) (one_per_line (unsupported st))], None)"
      by (simp add: write_list_lines)
    with False ex ne pf w1 show ?thesis by (simp add: main_def Let_def)
  qed
qed

lemma strict_run_glob: "glob_list strict_run_world ''litsts'' = [''a.list'']"
  by (simp add: glob_list_def strict_run_world_def world_with_def endswith_def)

lemma strict_run_lines:
  "all_lines strict_run_world ''litsts'' [''a.list''] = [''DOMAIN-MATCH,foo.com'', ''Example.com'']"
  by (simp add: all_lines_def strict_run_world_def world_with_def one_per_line_def
      splitlines_def islinebreak_def)

lemma parse_keyword_tlds_com: "parse_keyword_tlds ''com'' = [''com'']"
  by code_simp

lemma strict_run_aggregate:
  "process_lines [''com''] [''DOMAIN-MATCH,foo.com'', ''Example.com''] empty_aggregate
     = \<lparr>domains = [''example.com''], seen = {''example.com''},
        unsupported = [''domain-match,foo.com''], unsupported_seen = {''domain-match,foo.com''}\<rparr>"
proof -
  have p: "parse_line ''DOMAIN-MATCH,foo.com'' = Some (Raw_entry, ''DOMAIN-MATCH,foo.com'')"
    "parse_line ''Example.com'' = Some (Domain_entry, ''Example.com'')"
    by (simp_all add: parse_line_def strip_def isspace_def startswith_def split_first_def
        SUPPORTED_PREFIXES_def)
  have n: "normalize_str ''DOMAIN-MATCH,foo.com'' = ''domain-match,foo.com''"
    "normalize_str ''Example.com'' = ''example.com''"
    by code_simp+
  show ?thesis
    by (simp add: process_lines_def process_line_def p n add_domain_def add_unsupported_def
        empty_aggregate_def)
qed

lemma scenario_A_glob: "glob_list scenario_A_world ''litsts'' = [''rules.list'']"
  by (simp add: glob_list_def scenario_A_world_def world_with_def endswith_def)

lemma scenario_A_all_lines:
  "all_lines scenario_A_world ''litsts'' [''rules.list''] = scenario_A_lines"
  by (simp add: all_lines_def scenario_A_world_def world_with_def one_per_line_def
      scenario_A_lines_def splitlines_def islinebreak_def)

lemma parse_keyword_tlds_com_net: "parse_keyword_tlds ''com,net'' = [''com'', ''net'']"
  by code_simp

lemma scenario_A_aggregate:
  "process_lines [''com'', ''net''] scenario_A_lines empty_aggregate
     = \<lparr>domains = [''example.com'', ''example.org'', ''test.com'', ''test.net''],
        seen = {''test.net'', ''test.com'', ''example.org'', ''example.com''},
        unsupported = [''domain-match,foo.com''],
        unsupported_seen = {''domain-match,foo.com''}\<rparr>"
proof -
  have p: "parse_line ''example.com'' = Some (Domain_entry, ''example.com'')"
    "parse_line ''DOMAIN-SUFFIX,EXAMPLE.ORG.'' = Some (Domain_entry, ''EXAMPLE.ORG.'')"
    "parse_line ''DOMAIN-KEYWORD,test'' = Some (Keyword_entry, ''test'')"
    "parse_line ''DOMAIN-MATCH,foo.com'' = Some (Raw_entry, ''DOMAIN-MATCH,foo.com'')"
    "parse_line ''# comment'' = None"
    by (simp_all add: parse_line_def strip_def isspace_def startswith_def split_first_def
        SUPPORTED_PREFIXES_def)
  have n: "normalize_str ''example.com'' = ''example.com''"
    "normalize_str ''EXAMPLE.ORG.'' = ''example.org''"
    "normalize_str ''test'' = ''test''"
    "normalize_str ''DOMAIN-MATCH,foo.com'' = ''domain-match,foo.com''"
    by code_simp+
  show ?thesis
    by (simp add: scenario_A_lines_def process_lines_def process_line_def p n
        expand_keyword_def add_domain_def add_unsupported_def empty_aggregate_def)
qed

section \<open>The normalizer and the expander: claims C4, C5, C6\<close>

text \<open>
  C4, as amended. For every string \<open>D\<close>, \<open>normalize(D)\<close> is the trimmed, lower-cased \<open>D\<close>
  with one trailing \<open>.\<close> removed when there is one, and it is lower-case. Normalizing
  again changes nothing exactly when \<open>normalize(D)\<close> is empty or ends neither in \<open>.\<close>
  nor in white space: one call removes a single trailing \<open>.\<close> only, and does so after
  trimming, so what it returns can still end in \<open>.\<close> or in a blank.
\<close>

theorem normalize_str_trims_one_dot:
  "normalize_str D =
     (let v = lower (strip D) in if v \<noteq> [] \<and> last v = CHR ''.'' then butlast v else v)
   \<and> lower (normalize_str D) = normalize_str D
   \<and> (normalize_str (normalize_str D) = normalize_str D \<longleftrightarrow>
        normalize_str D = []
        \<or> (last (normalize_str D) \<noteq> CHR ''.'' \<and> \<not> isspace (last (normalize_str D))))"
proof -
  let ?n = "normalize_str D"
  have idem: "normalize_str ?n = ?n \<longleftrightarrow>
      ?n = [] \<or> (last ?n \<noteq> CHR ''.'' \<and> \<not> isspace (last ?n))"
  proof (cases "?n = []")
    case True
    then show ?thesis by (simp add: normalize_str_Nil)
  next
    case False
    note ne = this
    then have hd: "\<not> isspace (hd ?n)" by (rule hd_normalize_str)
    show ?thesis
    proof (cases "isspace (last ?n)")
      case True
      with ne have "length (strip ?n) < length ?n" by (rule length_strip_less)
      with length_normalize_str_le [of ?n] have "length (normalize_str ?n) < length ?n"
        by simp
      then have "normalize_str ?n \<noteq> ?n" by auto
      with ne True show ?thesis by simp
    next
      case False
      note nsp = this
      with ne hd have st: "strip ?n = ?n" by (simp add: strip_id)
      show ?thesis
      proof (cases "last ?n = CHR ''.''")
        case True
        with ne st have "normalize_str ?n = butlast ?n"
          by (simp add: normalize_str_alt [of ?n] Let_def lower_normalize_str lower_eq_Nil)
        moreover from ne have "butlast ?n \<noteq> ?n" by (rule butlast_neq)
        ultimately have "normalize_str ?n \<noteq> ?n" by simp
        with ne True show ?thesis by simp
      next
        case False
        with ne hd nsp have "normalize_str ?n = ?n"
          by (simp add: normalize_str_fixed lower_normalize_str)
        with ne nsp False show ?thesis by simp
      qed
    qed
  qed
  show ?thesis
    using idem normalize_str_alt [of D] lower_normalize_str [of D] by blast
qed

text \<open>
  C4 as stated fails: \<open>normalize("a..")\<close> is \<open>"a."\<close>, and normalizing that gives \<open>"a"\<close>.
\<close>

theorem normalize_str_not_idempotent:
  "normalize_str (normalize_str ''a..'') \<noteq> normalize_str ''a..''"
  by (simp add: normalize_str_def lower_def strip_def endswith_def isspace_def lower_char_def)

text \<open>
  C5, as amended. For every keyword \<open>K\<close> without a \<open>.\<close> whose normalization is not empty,
  \<open>expand(K, TLDs)\<close> has as many elements as \<open>TLDs\<close>, and they are
  \<open>normalize(K) + "." + tld\<close> for the TLDs in the list's order.
\<close>

theorem expand_keyword_without_dot:
  assumes "CHR ''.'' \<notin> set K" and "normalize_str K \<noteq> []"
  shows "expand_keyword K tlds = map (\<lambda>tld. normalize_str K @ ''.'' @ tld) tlds
         \<and> length (expand_keyword K tlds) = length tlds"
proof -
  from assms(1) have "CHR ''.'' \<notin> set (normalize_str K)"
    using dot_in_normalize_str by blast
  with assms(2) show ?thesis by (simp add: expand_keyword_def)
qed

text \<open>The keyword \<open>Test\<close> with the TLDs \<open>com\<close> and \<open>net\<close>.\<close>

theorem expand_keyword_without_dot_witness:
  "CHR ''.'' \<notin> set ''Test'' \<and> normalize_str ''Test'' \<noteq> []
   \<and> expand_keyword ''Test'' [''com'', ''net''] = [''test.com'', ''test.net'']"
proof -
  have n: "normalize_str ''Test'' = ''test''"
    by code_simp
  have d: "CHR ''.'' \<notin> set ''Test''" by simp
  from n have e: "normalize_str ''Test'' \<noteq> []" by simp
  from expand_keyword_without_dot [OF d e, of "[''com'', ''net'']"] n d e
  show ?thesis by simp
qed

text \<open>
  C5 as stated fails for the empty keyword: it has no \<open>.\<close>, and its expansion is empty
  whatever the TLD list.
\<close>

theorem expand_keyword_empty_keyword:
  "CHR ''.'' \<notin> set ([] :: string)
   \<and> length (expand_keyword [] [''com'']) \<noteq> length [''com'']"
  by (simp add: expand_keyword_def normalize_str_Nil)

text \<open>
  C6, as amended. For every keyword \<open>K\<close> whose normalization contains a \<open>.\<close>,
  \<open>expand(K, TLDs)\<close> is the one-element sequence \<open>[normalize(K)]\<close>, whatever the TLD list.
\<close>

theorem expand_keyword_with_dot:
  assumes "CHR ''.'' \<in> set (normalize_str K)"
  shows "expand_keyword K tlds = [normalize_str K]"
  using assms by (auto simp add: expand_keyword_def Let_def)

text \<open>The keyword \<open>Foo.Bar.\<close>, whose normalization \<open>foo.bar\<close> keeps a \<open>.\<close>.\<close>

theorem expand_keyword_with_dot_witness:
  "CHR ''.'' \<in> set (normalize_str ''Foo.Bar.'')
   \<and> expand_keyword ''Foo.Bar.'' [''com'', ''net''] = [''foo.bar'']"
proof -
  have n: "normalize_str ''Foo.Bar.'' = ''foo.bar''"
    by code_simp
  then have d: "CHR ''.'' \<in> set (normalize_str ''Foo.Bar.'')" by simp
  from expand_keyword_with_dot [OF d, of "[''com'', ''net'']"] n d show ?thesis by simp
qed

text \<open>
  C6 as stated fails for \<open>"a."\<close>: its only \<open>.\<close> is the trailing one, which the normalizer
  removes, so the keyword is expanded with the TLDs.
\<close>

theorem expand_keyword_trailing_dot_only:
  "CHR ''.'' \<in> set ''a.'' \<and> expand_keyword ''a.'' [''com''] \<noteq> [normalize_str ''a.'']"
  by (simp add: expand_keyword_def normalize_str_def lower_def strip_def endswith_def
      isspace_def lower_char_def)

section \<open>The classifier: claims C1, C9\<close>

text \<open>
  C1. With \<open>line\<close> the trimmed raw line: \<open>parse_line\<close> returns nothing when \<open>line\<close> is empty
  or starts with \<open>#\<close> or \<open>//\<close>. Otherwise it returns \<open>domain\<close> with the whole of \<open>line\<close> when
  \<open>line\<close> has no comma; and when \<open>line\<close> is \<open>pre\<close>, a first comma and \<open>rest\<close>, it returns
  \<open>domain\<close> with the trimmed \<open>rest\<close> if the trimmed \<open>pre\<close> is \<open>DOMAIN\<close> or \<open>DOMAIN-SUFFIX\<close>,
  \<open>keyword\<close> with the trimmed \<open>rest\<close> if it is \<open>DOMAIN-KEYWORD\<close>, and \<open>raw\<close> with the whole of
  \<open>line\<close> if it is none of the three. It never returns \<open>unknown\<close>.
\<close>

theorem parse_line_classification:
  "(strip raw = [] \<or> startswith (strip raw) ''#'' \<or> startswith (strip raw) ''//''
      \<longrightarrow> parse_line raw = None)
   \<and> (\<not> (strip raw = [] \<or> startswith (strip raw) ''#'' \<or> startswith (strip raw) ''//'') \<longrightarrow>
        (CHR '','' \<notin> set (strip raw) \<longrightarrow> parse_line raw = Some (Domain_entry, strip raw))
      \<and> (strip raw = pre @ CHR '','' # rest \<and> CHR '','' \<notin> set pre \<longrightarrow>
            (strip pre = ''DOMAIN'' \<or> strip pre = ''DOMAIN-SUFFIX''
               \<longrightarrow> parse_line raw = Some (Domain_entry, strip rest))
          \<and> (strip pre = ''DOMAIN-KEYWORD''
               \<longrightarrow> parse_line raw = Some (Keyword_entry, strip rest))
          \<and> (strip pre \<notin> {''DOMAIN'', ''DOMAIN-SUFFIX'', ''DOMAIN-KEYWORD''}
               \<longrightarrow> parse_line raw = Some (Raw_entry, strip raw))))
   \<and> parse_line raw \<noteq> Some (Unknown_entry, v)"
proof (intro conjI impI)
  assume "strip raw = [] \<or> startswith (strip raw) ''#'' \<or> startswith (strip raw) ''//''"
  then show "parse_line raw = None" by (rule parse_line_skip)
next
  assume "\<not> (strip raw = [] \<or> startswith (strip raw) ''#'' \<or> startswith (strip raw) ''//'')"
    and "CHR '','' \<notin> set (strip raw)"
  then show "parse_line raw = Some (Domain_entry, strip raw)" by (rule parse_line_bare)
next
  assume a: "\<not> (strip raw = [] \<or> startswith (strip raw) ''#'' \<or> startswith (strip raw) ''//'')"
    and b: "strip raw = pre @ CHR '','' # rest \<and> CHR '','' \<notin> set pre"
    and c: "strip pre = ''DOMAIN'' \<or> strip pre = ''DOMAIN-SUFFIX''"
  from b have b1: "strip raw = pre @ CHR '','' # rest" and b2: "CHR '','' \<notin> set pre" by simp_all
  from parse_line_comma [OF a b1 b2] c
  show "parse_line raw = Some (Domain_entry, strip rest)" by simp
next
  assume a: "\<not> (strip raw = [] \<or> startswith (strip raw) ''#'' \<or> startswith (strip raw) ''//'')"
    and b: "strip raw = pre @ CHR '','' # rest \<and> CHR '','' \<notin> set pre"
    and c: "strip pre = ''DOMAIN-KEYWORD''"
  from b have b1: "strip raw = pre @ CHR '','' # rest" and b2: "CHR '','' \<notin> set pre" by simp_all
  from parse_line_comma [OF a b1 b2] c
  show "parse_line raw = Some (Keyword_entry, strip rest)" by simp
next
  assume a: "\<not> (strip raw = [] \<or> startswith (strip raw) ''#'' \<or> startswith (strip raw) ''//'')"
    and b: "strip raw = pre @ CHR '','' # rest \<and> CHR '','' \<notin> set pre"
    and c: "strip pre \<notin> {''DOMAIN'', ''DOMAIN-SUFFIX'', ''DOMAIN-KEYWORD''}"
  from b have b1: "strip raw = pre @ CHR '','' # rest" and b2: "CHR '','' \<notin> set pre" by simp_all
  from parse_line_comma [OF a b1 b2] c
  show "parse_line raw = Some (Raw_entry, strip raw)" by simp
next
  show "parse_line raw \<noteq> Some (Unknown_entry, v)" by (rule parse_line_not_unknown)
qed

text \<open>One line for each outcome; the third shows the cut at the first comma and the trimming.\<close>

theorem parse_line_classification_witness:
  "parse_line ''  # note'' = None
   \<and> parse_line ''example.com'' = Some (Domain_entry, ''example.com'')
   \<and> parse_line '' DOMAIN-SUFFIX , a,b '' = Some (Domain_entry, ''a,b'')
   \<and> parse_line ''DOMAIN-KEYWORD , test'' = Some (Keyword_entry, ''test'')
   \<and> parse_line ''DOMAIN-MATCH,foo.com'' = Some (Raw_entry, ''DOMAIN-MATCH,foo.com'')"
proof -
  have s1: "strip ''  # note'' = ''# note''"
    by (simp add: strip_def isspace_def)
  have c1: "parse_line ''  # note'' = None"
    using parse_line_classification [of "''  # note''"] s1 by (simp add: startswith_def)
  have s2: "strip ''example.com'' = ''example.com''"
    by (simp add: strip_def isspace_def)
  have c2: "parse_line ''example.com'' = Some (Domain_entry, ''example.com'')"
    using parse_line_classification [of "''example.com''"] s2 by (simp add: startswith_def)
  have s3: "strip '' DOMAIN-SUFFIX , a,b '' = ''DOMAIN-SUFFIX , a,b''"
    "strip ''DOMAIN-SUFFIX '' = ''DOMAIN-SUFFIX''" "strip '' a,b'' = ''a,b''"
    by (simp_all add: strip_def isspace_def)
  have c3: "parse_line '' DOMAIN-SUFFIX , a,b '' = Some (Domain_entry, ''a,b'')"
    using parse_line_classification
      [of "'' DOMAIN-SUFFIX , a,b ''" "''DOMAIN-SUFFIX ''" "'' a,b''"] s3
    by (simp add: startswith_def)
  have s4: "strip ''DOMAIN-KEYWORD , test'' = ''DOMAIN-KEYWORD , test''"
    "strip ''DOMAIN-KEYWORD '' = ''DOMAIN-KEYWORD''" "strip '' test'' = ''test''"
    by (simp_all add: strip_def isspace_def)
  have c4: "parse_line ''DOMAIN-KEYWORD , test'' = Some (Keyword_entry, ''test'')"
    using parse_line_classification
      [of "''DOMAIN-KEYWORD , test''" "''DOMAIN-KEYWORD ''" "'' test''"] s4
    by (simp add: startswith_def)
  have s5: "strip ''DOMAIN-MATCH,foo.com'' = ''DOMAIN-MATCH,foo.com''"
    "strip ''DOMAIN-MATCH'' = ''DOMAIN-MATCH''"
    by (simp_all add: strip_def isspace_def)
  have c5: "parse_line ''DOMAIN-MATCH,foo.com'' = Some (Raw_entry, ''DOMAIN-MATCH,foo.com'')"
    using parse_line_classification
      [of "''DOMAIN-MATCH,foo.com''" "''DOMAIN-MATCH''" "''foo.com''"] s5
    by (simp add: startswith_def)
  from c1 c2 c3 c4 c5 show ?thesis by simp
qed

text \<open>
  C9. Let the trimmed line be \<open>pre\<close>, a first comma and \<open>rest\<close>, and let the trimmed \<open>pre\<close>
  be \<open>p\<close>, which differs from a supported prefix \<open>q\<close> only in letter case (same lower-case
  form, not the same string). Then \<open>parse_line\<close> returns \<open>raw\<close> with the whole trimmed line;
  the normalized line is not empty; processing the line leaves the domains and their
  seen-set as they were and appends the normalized line to the unsupported list unless the
  unsupported seen-set has it already; and at the end of any run over lines that contain
  this one, the normalized line is in the unsupported list.
\<close>

theorem parse_line_prefix_case_sensitive:
  assumes q: "q \<in> SUPPORTED_PREFIXES" and low: "lower p = lower q" and neq: "p \<noteq> q"
    and line: "strip raw_line = pre @ CHR '','' # rest" and pre: "CHR '','' \<notin> set pre"
    and p: "strip pre = p"
  shows "parse_line raw_line = Some (Raw_entry, strip raw_line)
     \<and> normalize_str (strip raw_line) \<noteq> []
     \<and> domains (process_line tlds raw_line st) = domains st
     \<and> seen (process_line tlds raw_line st) = seen st
     \<and> unsupported (process_line tlds raw_line st) =
         (if normalize_str (strip raw_line) \<in> unsupported_seen st then unsupported st
          else unsupported st @ [normalize_str (strip raw_line)])
     \<and> (raw_line \<in> set ls \<longrightarrow>
          normalize_str (strip raw_line)
            \<in> set (unsupported (process_lines tlds ls empty_aggregate)))"
proof -
  let ?line = "strip raw_line"
  from low have len: "length p = length q"
    using length_lower by metis
  with supported_length [OF q] have p6: "6 \<le> length p" by simp
  then have pne: "p \<noteq> []" by auto
  with p have prene: "pre \<noteq> []" by (auto simp add: strip_Nil)
  from line have lne: "?line \<noteq> []" by simp
  then have "\<not> isspace (hd ?line)" by (rule strip_hd)
  with line prene have "\<not> isspace (hd pre)" by simp
  with prene have "hd (strip pre) = hd pre" by (simp add: strip_keeps_hd)
  with p line prene have hdl: "hd ?line = hd p" by simp
  from supported_hd [OF q] have "hd (lower q) = lower_char CHR ''D''"
    by (simp add: hd_lower)
  with low pne have "lower_char (hd p) = lower_char CHR ''D''"
    by (simp add: hd_lower [symmetric])
  then have "hd p \<noteq> CHR ''#'' \<and> hd p \<noteq> CHR ''/''"
    by (rule lower_char_D_not_comment)
  with hdl lne have nc: "\<not> (?line = [] \<or> startswith ?line ''#'' \<or> startswith ?line ''//'')"
    using startswith_slashes [of ?line] by (auto simp add: startswith_hash)
  from q neq len have "p \<notin> SUPPORTED_PREFIXES"
    using supported_same_length by blast
  then have "strip pre \<noteq> ''DOMAIN'' \<and> strip pre \<noteq> ''DOMAIN-SUFFIX''
      \<and> strip pre \<noteq> ''DOMAIN-KEYWORD''"
    using p by (auto simp add: SUPPORTED_PREFIXES_def)
  with parse_line_comma [OF nc line pre]
  have parsed: "parse_line raw_line = Some (Raw_entry, ?line)" by simp
  have "length p \<le> length pre" using p length_strip_le [of pre] by simp
  with p6 line have "7 \<le> length ?line" by simp
  then have "7 \<le> length (strip ?line)" by (simp add: strip_strip)
  with length_normalize_str_ge [of ?line] have nne: "normalize_str ?line \<noteq> []" by auto
  from parsed have pl: "process_line tlds raw_line st = add_unsupported (normalize_str ?line) st"
    by (simp add: process_line_def)
  have inv0: "unsupported_seen empty_aggregate = set (unsupported empty_aggregate)"
    by (simp add: empty_aggregate_def)
  have mem: "raw_line \<in> set ls \<longrightarrow>
      normalize_str ?line \<in> set (unsupported (process_lines tlds ls empty_aggregate))"
    using process_lines_unsupported_member [OF inv0 _ parsed nne] by blast
  from parsed nne pl mem show ?thesis
    by (simp add: add_unsupported_def)
qed

text \<open>The line \<open>domain,example.com\<close>, alone and after a bare domain.\<close>

theorem parse_line_prefix_case_sensitive_witness:
  "''DOMAIN'' \<in> SUPPORTED_PREFIXES \<and> lower ''domain'' = lower ''DOMAIN''
   \<and> parse_line ''domain,example.com'' = Some (Raw_entry, ''domain,example.com'')
   \<and> domains (process_line [''com''] ''domain,example.com'' empty_aggregate) = []
   \<and> unsupported (process_line [''com''] ''domain,example.com'' empty_aggregate)
       = [''domain,example.com'']
   \<and> ''domain,example.com''
       \<in> set (unsupported (process_lines [''com''] [''a.com'', ''domain,example.com''] empty_aggregate))"
proof -
  have q: "''DOMAIN'' \<in> SUPPORTED_PREFIXES" by (simp add: SUPPORTED_PREFIXES_def)
  have low: "lower ''domain'' = lower ''DOMAIN''" by code_simp
  have neq: "''domain'' \<noteq> ''DOMAIN''" by simp
  have line: "strip ''domain,example.com'' = ''domain'' @ CHR '','' # ''example.com''"
    by (simp add: strip_def isspace_def)
  have pre: "CHR '','' \<notin> set ''domain''" by simp
  have p: "strip ''domain'' = ''domain''" by (simp add: strip_def isspace_def)
  have n: "normalize_str ''domain,example.com'' = ''domain,example.com''" by code_simp
  have m: "''domain,example.com'' \<in> set [''a.com'', ''domain,example.com'']" by simp
  from parse_line_prefix_case_sensitive [OF q low neq line pre p,
      of "[''com'']" empty_aggregate "[''a.com'', ''domain,example.com'']"] line n m q low
  show ?thesis by (simp add: empty_aggregate_def)
qed

section \<open>An empty TLD list: claim C10\<close>

text \<open>
  C10. A \<open>--keyword-tlds\<close> value made of commas and white space only parses to the empty
  list. With the empty list, \<open>expand_keyword\<close> returns the empty sequence for every keyword
  whose normalization has no \<open>.\<close>, and a line classified \<open>keyword\<close> with such a value
  leaves the whole aggregate as it was: nothing is added to the domains, nothing to the
  unsupported entries.
\<close>

theorem keyword_without_tlds_contributes_nothing:
  "((\<forall>c\<in>set s. c = CHR '','' \<or> isspace c) \<longrightarrow> parse_keyword_tlds s = [])
   \<and> (CHR ''.'' \<notin> set (normalize_str k) \<longrightarrow> expand_keyword k [] = [])
   \<and> (parse_line raw_line = Some (Keyword_entry, k) \<and> CHR ''.'' \<notin> set (normalize_str k)
        \<longrightarrow> process_line [] raw_line st = st)"
proof (intro conjI impI)
  assume "\<forall>c\<in>set s. c = CHR '','' \<or> isspace c"
  then show "parse_keyword_tlds s = []" by (rule parse_keyword_tlds_blank)
next
  assume "CHR ''.'' \<notin> set (normalize_str k)"
  then show "expand_keyword k [] = []" by (rule expand_keyword_no_tlds)
next
  assume "parse_line raw_line = Some (Keyword_entry, k) \<and> CHR ''.'' \<notin> set (normalize_str k)"
  then show "process_line [] raw_line st = st"
    by (simp add: process_line_def expand_keyword_no_tlds)
qed

text \<open>The option value \<open>, ,, \<close> and the line \<open>DOMAIN-KEYWORD,Test\<close>.\<close>

theorem keyword_without_tlds_contributes_nothing_witness:
  "parse_keyword_tlds '', ,, '' = []
   \<and> expand_keyword ''Test'' [] = []
   \<and> parse_line ''DOMAIN-KEYWORD,Test'' = Some (Keyword_entry, ''Test'')
   \<and> process_line (parse_keyword_tlds '', ,, '') ''DOMAIN-KEYWORD,Test'' empty_aggregate
       = empty_aggregate"
proof -
  have a: "\<forall>c\<in>set '', ,, ''. c = CHR '','' \<or> isspace c" by (simp add: isspace_def)
  have n: "normalize_str ''Test'' = ''test''" by code_simp
  then have b: "CHR ''.'' \<notin> set (normalize_str ''Test'')" by simp
  have c: "parse_line ''DOMAIN-KEYWORD,Test'' = Some (Keyword_entry, ''Test'')"
    by (simp add: parse_line_def strip_def isspace_def startswith_def split_first_def)
  from keyword_without_tlds_contributes_nothing
       [of "'', ,, ''" "''Test''" "''DOMAIN-KEYWORD,Test''" empty_aggregate] a b c
  show ?thesis by simp
qed

section \<open>The aggregator: claim C3\<close>

text \<open>
  C3. For every TLD list and every sequence of input lines, the domains list at the end
  of the run has no entry twice and no empty string, and its seen-set holds exactly its
  entries. The list is the sequence of non-empty domains the lines produce, literal ones
  and keyword expansions alike in processing order, cut down to first occurrences: a
  domain produced twice, by whatever kinds of line, stands once, where it came first.
\<close>

theorem domains_are_first_occurrences:
  "distinct (domains (process_lines tlds ls empty_aggregate))
   \<and> [] \<notin> set (domains (process_lines tlds ls empty_aggregate))
   \<and> seen (process_lines tlds ls empty_aggregate)
       = set (domains (process_lines tlds ls empty_aggregate))
   \<and> domains (process_lines tlds ls empty_aggregate)
       = first_occurrences (filter (\<lambda>d. d \<noteq> []) (concat (map (produced tlds) ls)))"
proof -
  have a: "domains empty_aggregate = first_occurrences (filter (\<lambda>d. d \<noteq> []) [])"
    by (simp add: empty_aggregate_def first_occurrences_Nil)
  have b: "seen empty_aggregate = set (domains empty_aggregate)"
    by (simp add: empty_aggregate_def)
  from process_lines_stream [OF a b, of tlds ls]
  have eq: "domains (process_lines tlds ls empty_aggregate)
       = first_occurrences (filter (\<lambda>d. d \<noteq> []) (concat (map (produced tlds) ls)))"
    and sn: "seen (process_lines tlds ls empty_aggregate)
       = set (domains (process_lines tlds ls empty_aggregate))" by simp_all
  from eq have "distinct (domains (process_lines tlds ls empty_aggregate))"
    by (simp add: distinct_first_occurrences)
  moreover from eq have "[] \<notin> set (domains (process_lines tlds ls empty_aggregate))"
    by (simp add: set_first_occurrences)
  ultimately show ?thesis using eq sn by simp
qed

text \<open>
  A literal \<open>test.net\<close> before the keyword \<open>test\<close>, and a literal \<open>test.com\<close> after it:
  each domain stands once, at its first occurrence.
\<close>

theorem domains_are_first_occurrences_witness:
  "domains (process_lines [''com'', ''net'']
      [''test.net'', ''DOMAIN-KEYWORD,test'', ''DOMAIN,test.com''] empty_aggregate)
     = [''test.net'', ''test.com'']"
proof -
  have "first_occurrences (filter (\<lambda>d. d \<noteq> [])
          (concat (map (produced [''com'', ''net''])
             [''test.net'', ''DOMAIN-KEYWORD,test'', ''DOMAIN,test.com''])))
        = [''test.net'', ''test.com'']"
    by code_simp
  with domains_are_first_occurrences
         [of "[''com'', ''net'']" "[''test.net'', ''DOMAIN-KEYWORD,test'', ''DOMAIN,test.com'']"]
  show ?thesis by simp
qed

section \<open>The writer: claim C8\<close>

text \<open>
  C8, as amended. With no path, \<open>write_list\<close> does nothing. With a path, when creating
  the parent directories and writing succeed, it creates the parents and writes one file:
  empty when the sequence is empty or is the single empty string, and otherwise the
  entries joined by newlines with one newline appended. For a sequence that is not empty,
  the entries joined by newlines with one newline appended are the entries one per line.
\<close>

theorem write_list_contract:
  "write_list w None items = ([], None)
   \<and> (mkdir_ok w p \<and> write_ok w p \<longrightarrow>
        write_list w (Some p) items =
          ([Mkdir_parents p,
            Write_text p (if items = [] \<or> items = [[]] then []
                          else join [CHR 0x0A] items @ [CHR 0x0A])], None))
   \<and> (items \<noteq> [] \<longrightarrow> join [CHR 0x0A] items @ [CHR 0x0A] = one_per_line items)"
proof (intro conjI impI)
  show "write_list w None items = ([], None)" by (simp add: write_list_def)
next
  assume "mkdir_ok w p \<and> write_ok w p"
  then show "write_list w (Some p) items =
          ([Mkdir_parents p,
            Write_text p (if items = [] \<or> items = [[]] then []
                          else join [CHR 0x0A] items @ [CHR 0x0A])], None)"
    by (simp add: write_list_ok)
next
  assume "items \<noteq> []"
  then show "join [CHR 0x0A] items @ [CHR 0x0A] = one_per_line items"
    by (rule join_one_per_line)
qed

text \<open>Two entries, no entry, and no path, where every write succeeds.\<close>

theorem write_list_contract_witness:
  "write_list (world_with ''litsts'' []) (Some ''out.txt'') [''a.com'', ''b.org'']
     = ([Mkdir_parents ''out.txt'',
         Write_text ''out.txt'' (''a.com'' @ [CHR 0x0A] @ ''b.org'' @ [CHR 0x0A])], None)
   \<and> write_list (world_with ''litsts'' []) (Some ''out.txt'') []
     = ([Mkdir_parents ''out.txt'', Write_text ''out.txt'' []], None)
   \<and> write_list (world_with ''litsts'' []) None [''a.com'', ''b.org''] = ([], None)"
proof -
  have ok: "mkdir_ok (world_with ''litsts'' []) ''out.txt''
      \<and> write_ok (world_with ''litsts'' []) ''out.txt''"
    by (simp add: world_with_def)
  from write_list_contract [of "world_with ''litsts'' []" "[''a.com'', ''b.org'']" "''out.txt''"]
    write_list_contract [of "world_with ''litsts'' []" "[]" "''out.txt''"] ok
  show ?thesis by simp
qed

text \<open>
  C8 as stated fails for the sequence that holds one empty string: it is not empty, and
  the file written for it is, with no newline at its end.
\<close>

theorem write_list_single_empty_string:
  "[[]] \<noteq> ([] :: string list)
   \<and> write_list (world_with ''litsts'' []) (Some ''out.txt'') [[]]
       = ([Mkdir_parents ''out.txt'', Write_text ''out.txt'' []], None)"
  by (simp add: write_list_def world_with_def)

section \<open>The entry point: claims C7, C2\<close>

text \<open>
  C7, as amended. In a run where the input files can be read and the output files can be
  written: the entry point returns 2 and writes nothing when the input directory does not
  exist or holds no \<open>*.list\<close> file. Otherwise it writes the domains file in full, one
  domain per line, then the unsupported-entries file in full, one entry per line, unless
  \<open>--unsupported-file\<close> is the empty string, in which case that file is not written; and
  then it returns 1 when there is an unsupported entry and strict mode is on, and 0 when
  not.
\<close>

theorem main_exit_codes:
  assumes reads: "\<forall>name\<in>set (glob_list w (input_dir a)). read_text w (input_dir a) name \<noteq> None"
    and out: "mkdir_ok w (output_file a) \<and> write_ok w (output_file a)"
    and uns: "unsupported_file a \<noteq> [] \<longrightarrow>
               mkdir_ok w (unsupported_file a) \<and> write_ok w (unsupported_file a)"
  shows "main w a =
     (let st = process_lines (parse_keyword_tlds (keyword_tlds a))
                 (all_lines w (input_dir a) (sort (glob_list w (input_dir a)))) empty_aggregate
      in if \<not> path_exists w (input_dir a) \<or> glob_list w (input_dir a) = [] then ([], Inr 2)
         else ([Mkdir_parents (output_file a),
                Write_text (output_file a) (one_per_line (domains st))]
                 @ (if unsupported_file a = [] then []
                    else [Mkdir_parents (unsupported_file a),
                          Write_text (unsupported_file a) (one_per_line (unsupported st))]),
               Inr (if unsupported st \<noteq> [] \<and> strict a then 1 else 0)))"
proof (cases "\<not> path_exists w (input_dir a) \<or> glob_list w (input_dir a) = []")
  case True
  then have "main w a = ([], Inr 2)" by (rule main_no_input)
  with True show ?thesis by (simp add: Let_def)
next
  case False
  then have ex: "path_exists w (input_dir a)" and files: "glob_list w (input_dir a) \<noteq> []"
    by simp_all
  from main_run [OF ex files reads out uns refl] False show ?thesis
    by (simp add: Let_def)
qed

text \<open>
  The strict run: one unsupported entry, both files written, exit code 1; and the same
  arguments where the input directory does not exist: nothing written, exit code 2.
\<close>

theorem main_exit_codes_witness:
  "main strict_run_world strict_run_args
     = ([Mkdir_parents ''out.txt'', Write_text ''out.txt'' (one_per_line [''example.com'']),
         Mkdir_parents ''unsupported.txt'',
         Write_text ''unsupported.txt'' (one_per_line [''domain-match,foo.com''])],
        Inr 1)
   \<and> main (strict_run_world\<lparr>path_exists := (\<lambda>p. False)\<rparr>) strict_run_args = ([], Inr 2)"
proof -
  have a: "input_dir strict_run_args = ''litsts''" "output_file strict_run_args = ''out.txt''"
    "unsupported_file strict_run_args = ''unsupported.txt''" "strict strict_run_args"
    "keyword_tlds strict_run_args = ''com''"
    by (simp_all add: strict_run_args_def)
  have r: "\<forall>name\<in>set (glob_list strict_run_world (input_dir strict_run_args)).
      read_text strict_run_world (input_dir strict_run_args) name \<noteq> None"
    by (simp add: a strict_run_glob) (simp add: strict_run_world_def world_with_def)
  have o: "mkdir_ok strict_run_world (output_file strict_run_args)
      \<and> write_ok strict_run_world (output_file strict_run_args)"
    by (simp add: strict_run_world_def world_with_def)
  have u: "unsupported_file strict_run_args \<noteq> [] \<longrightarrow>
      mkdir_ok strict_run_world (unsupported_file strict_run_args)
      \<and> write_ok strict_run_world (unsupported_file strict_run_args)"
    by (simp add: strict_run_world_def world_with_def)
  have e: "path_exists strict_run_world ''litsts''"
    by (simp add: strict_run_world_def world_with_def)
  have first: "main strict_run_world strict_run_args
     = ([Mkdir_parents ''out.txt'', Write_text ''out.txt'' (one_per_line [''example.com'']),
         Mkdir_parents ''unsupported.txt'',
         Write_text ''unsupported.txt'' (one_per_line [''domain-match,foo.com''])],
        Inr 1)"
    using main_exit_codes [OF r o u]
    by (simp add: a e strict_run_glob strict_run_lines parse_keyword_tlds_com
        strict_run_aggregate)
  let ?w = "strict_run_world\<lparr>path_exists := (\<lambda>p. False)\<rparr>"
  have g2: "glob_list ?w ''litsts'' = [''a.list'']"
    by (simp add: glob_list_def strict_run_world_def world_with_def endswith_def)
  have r2: "\<forall>name\<in>set (glob_list ?w (input_dir strict_run_args)).
      read_text ?w (input_dir strict_run_args) name \<noteq> None"
    by (simp add: a g2) (simp add: strict_run_world_def world_with_def)
  have o2: "mkdir_ok ?w (output_file strict_run_args) \<and> write_ok ?w (output_file strict_run_args)"
    by (simp add: strict_run_world_def world_with_def)
  have u2: "unsupported_file strict_run_args \<noteq> [] \<longrightarrow>
      mkdir_ok ?w (unsupported_file strict_run_args)
      \<and> write_ok ?w (unsupported_file strict_run_args)"
    by (simp add: strict_run_world_def world_with_def)
  have second: "main ?w strict_run_args = ([], Inr 2)"
    using main_exit_codes [OF r2 o2 u2] by (simp add: Let_def)
  from first second show ?thesis by simp
qed

text \<open>
  C7 as stated fails when \<open>--unsupported-file\<close> is the empty string: in strict mode, with
  one unsupported entry found, the run returns 1 and has written the domains file only.
\<close>

theorem main_strict_suppressed_unsupported_file:
  "strict suppressed_run_args
   \<and> unsupported (process_lines (parse_keyword_tlds (keyword_tlds suppressed_run_args))
        (all_lines strict_run_world ''litsts'' [''a.list'']) empty_aggregate)
       = [''domain-match,foo.com'']
   \<and> main strict_run_world suppressed_run_args
       = ([Mkdir_parents ''out.txt'', Write_text ''out.txt'' (one_per_line [''example.com''])],
          Inr 1)"
proof -
  have a: "input_dir suppressed_run_args = ''litsts''"
    "output_file suppressed_run_args = ''out.txt''"
    "unsupported_file suppressed_run_args = []" "strict suppressed_run_args"
    "keyword_tlds suppressed_run_args = ''com''"
    by (simp_all add: suppressed_run_args_def strict_run_args_def)
  have e: "path_exists strict_run_world (input_dir suppressed_run_args)"
    by (simp add: a strict_run_world_def world_with_def)
  have f: "glob_list strict_run_world (input_dir suppressed_run_args) \<noteq> []"
    by (simp add: a strict_run_glob)
  have r: "\<forall>name\<in>set (glob_list strict_run_world (input_dir suppressed_run_args)).
      read_text strict_run_world (input_dir suppressed_run_args) name \<noteq> None"
    by (simp add: a strict_run_glob) (simp add: strict_run_world_def world_with_def)
  have o: "mkdir_ok strict_run_world (output_file suppressed_run_args)
      \<and> write_ok strict_run_world (output_file suppressed_run_args)"
    by (simp add: strict_run_world_def world_with_def)
  have u: "unsupported_file suppressed_run_args \<noteq> [] \<longrightarrow>
      mkdir_ok strict_run_world (unsupported_file suppressed_run_args)
      \<and> write_ok strict_run_world (unsupported_file suppressed_run_args)"
    by (simp add: a)
  from main_run [OF e f r o u refl] show ?thesis
    by (simp add: a strict_run_glob strict_run_lines parse_keyword_tlds_com strict_run_aggregate)
qed

text \<open>
  C2. Scenario A: the input directory holds one file whose lines are \<open>example.com\<close>,
  \<open>DOMAIN-SUFFIX,EXAMPLE.ORG.\<close>, \<open>DOMAIN-KEYWORD,test\<close>, \<open>DOMAIN-MATCH,foo.com\<close> and
  \<open># comment\<close>, and the TLD option is \<open>com,net\<close>. The option parses to \<open>com\<close>, \<open>net\<close>, the
  lines read are those five, the domains are \<open>example.com\<close>, \<open>example.org\<close>, \<open>test.com\<close>,
  \<open>test.net\<close>, the unsupported entries are \<open>domain-match,foo.com\<close>, and the run writes
  these two sequences, one entry per line, to the two output files and returns 0.
\<close>

theorem scenario_A:
  "parse_keyword_tlds (keyword_tlds scenario_A_args) = [''com'', ''net'']
   \<and> all_lines scenario_A_world (input_dir scenario_A_args)
        (sort (glob_list scenario_A_world (input_dir scenario_A_args)))
       = [''example.com'', ''DOMAIN-SUFFIX,EXAMPLE.ORG.'', ''DOMAIN-KEYWORD,test'',
          ''DOMAIN-MATCH,foo.com'', ''# comment'']
   \<and> domains (process_lines [''com'', ''net''] scenario_A_lines empty_aggregate)
       = [''example.com'', ''example.org'', ''test.com'', ''test.net'']
   \<and> unsupported (process_lines [''com'', ''net''] scenario_A_lines empty_aggregate)
       = [''domain-match,foo.com'']
   \<and> main scenario_A_world scenario_A_args
       = ([Mkdir_parents ''generated/keenetic_dns_routes.txt'',
           Write_text ''generated/keenetic_dns_routes.txt''
             (one_per_line [''example.com'', ''example.org'', ''test.com'', ''test.net'']),
           Mkdir_parents ''generated/keenetic_dns_routes_unsupported.txt'',
           Write_text ''generated/keenetic_dns_routes_unsupported.txt''
             (one_per_line [''domain-match,foo.com''])],
          Inr 0)"
proof -
  have a: "input_dir scenario_A_args = ''litsts''"
    "output_file scenario_A_args = ''generated/keenetic_dns_routes.txt''"
    "unsupported_file scenario_A_args = ''generated/keenetic_dns_routes_unsupported.txt''"
    "\<not> strict scenario_A_args" "keyword_tlds scenario_A_args = ''com,net''"
    by (simp_all add: scenario_A_args_def default_args_def)
  have e: "path_exists scenario_A_world (input_dir scenario_A_args)"
    by (simp add: a scenario_A_world_def world_with_def)
  have f: "glob_list scenario_A_world (input_dir scenario_A_args) \<noteq> []"
    by (simp add: a scenario_A_glob)
  have r: "\<forall>name\<in>set (glob_list scenario_A_world (input_dir scenario_A_args)).
      read_text scenario_A_world (input_dir scenario_A_args) name \<noteq> None"
    by (simp add: a scenario_A_glob) (simp add: scenario_A_world_def world_with_def)
  have o: "mkdir_ok scenario_A_world (output_file scenario_A_args)
      \<and> write_ok scenario_A_world (output_file scenario_A_args)"
    by (simp add: scenario_A_world_def world_with_def)
  have u: "unsupported_file scenario_A_args \<noteq> [] \<longrightarrow>
      mkdir_ok scenario_A_world (unsupported_file scenario_A_args)
      \<and> write_ok scenario_A_world (unsupported_file scenario_A_args)"
    by (simp add: scenario_A_world_def world_with_def)
  have m: "main scenario_A_world scenario_A_args
       = ([Mkdir_parents ''generated/keenetic_dns_routes.txt'',
           Write_text ''generated/keenetic_dns_routes.txt''
             (one_per_line [''example.com'', ''example.org'', ''test.com'', ''test.net'']),
           Mkdir_parents ''generated/keenetic_dns_routes_unsupported.txt'',
           Write_text ''generated/keenetic_dns_routes_unsupported.txt''
             (one_per_line [''domain-match,foo.com''])],
          Inr 0)"
    using main_run [OF e f r o u refl]
    by (simp add: a scenario_A_glob scenario_A_all_lines parse_keyword_tlds_com_net
        scenario_A_aggregate)
  have l: "all_lines scenario_A_world (input_dir scenario_A_args)
        (sort (glob_list scenario_A_world (input_dir scenario_A_args)))
       = [''example.com'', ''DOMAIN-SUFFIX,EXAMPLE.ORG.'', ''DOMAIN-KEYWORD,test'',
          ''DOMAIN-MATCH,foo.com'', ''# comment'']"
    using scenario_A_all_lines by (simp add: a scenario_A_glob scenario_A_lines_def)
  from m l show ?thesis
    by (simp add: a parse_keyword_tlds_com_net scenario_A_aggregate)
qed

end
